theory Spec2Isabelle
  imports Complex_Main "HOL-Library.Log_Nat" "HOL-Library.Sublist"
begin

section \<open>JavaScript numbers\<close>

text \<open>
  Every \<^verbatim>\<open>number\<close> of the worker script is an IEEE 754 binary64 value. A finite value
  is kept as the real number it denotes; the two infinities and NaN are separate
  constructors. The sign of a zero is not represented: the script can observe it only by
  dividing by a zero, and its only divisor is the literal 100.
\<close>

datatype number = Fin real | PosInf | NegInf | NaN

text \<open>\<open>expo x\<close> is the binary exponent of a non-zero \<open>x\<close>: the \<open>e\<close> with \<open>2^e \<le> |x| < 2^(e+1)\<close>.\<close>

definition expo :: "real \<Rightarrow> int" where
  "expo x = (if 1 \<le> \<bar>x\<bar> then bitlen \<lfloor>\<bar>x\<bar>\<rfloor> - 1 else - bitlen (\<lceil>1 / \<bar>x\<bar>\<rceil> - 1))"

text \<open>The spacing of the doubles around \<open>x\<close>: 53 significant bits, subnormals below \<open>2^-1022\<close>.\<close>

definition ulp :: "real \<Rightarrow> real" where
  "ulp x = 2 powi (max (expo x) (- 1022) - 52)"

definition roundTiesToEven :: "real \<Rightarrow> int" where
  "roundTiesToEven y =
     (let f = \<lfloor>y\<rfloor>; r = y - of_int f
      in if r < 1 / 2 then f else if 1 / 2 < r then f + 1 else if even f then f else f + 1)"

definition maxValue :: real where
  "maxValue = (2 ^ 53 - 1) * 2 ^ 971"

text \<open>The double nearest to \<open>x\<close>, the one with the even significand on a tie.\<close>

definition nearest :: "real \<Rightarrow> real" where
  "nearest x = of_int (roundTiesToEven (x / ulp x)) * ulp x"

text \<open>Rounding of an exact result: to the nearest double, and to an infinity on overflow.\<close>

definition round64 :: "real \<Rightarrow> number" where
  "round64 x =
     (if x = 0 then Fin 0
      else if maxValue < nearest x then PosInf
      else if nearest x < - maxValue then NegInf
      else Fin (nearest x))"

text \<open>A real number that is the value of a finite double.\<close>

definition is_double :: "real \<Rightarrow> bool" where
  "is_double x = (of_int \<lfloor>x / ulp x\<rfloor> = x / ulp x \<and> \<bar>x\<bar> \<le> maxValue)"

fun fneg :: "number \<Rightarrow> number" where
  "fneg (Fin a) = Fin (- a)"
| "fneg PosInf = NegInf"
| "fneg NegInf = PosInf"
| "fneg NaN = NaN"

text \<open>The operator \<^verbatim>\<open>+\<close> on numbers.\<close>

fun fadd :: "number \<Rightarrow> number \<Rightarrow> number" where
  "fadd (Fin a) (Fin b) = round64 (a + b)"
| "fadd NaN _ = NaN"
| "fadd _ NaN = NaN"
| "fadd PosInf NegInf = NaN"
| "fadd NegInf PosInf = NaN"
| "fadd PosInf _ = PosInf"
| "fadd NegInf _ = NegInf"
| "fadd _ PosInf = PosInf"
| "fadd _ NegInf = NegInf"

text \<open>The operator \<^verbatim>\<open>-\<close> on numbers.\<close>

definition fsub :: "number \<Rightarrow> number \<Rightarrow> number" where
  "fsub a b = fadd a (fneg b)"

text \<open>The operator \<^verbatim>\<open>/\<close> on numbers; a zero divisor is taken as \<open>+0\<close>.\<close>

fun fdiv :: "number \<Rightarrow> number \<Rightarrow> number" where
  "fdiv (Fin a) (Fin b) =
     (if b = 0 then (if a = 0 then NaN else if 0 < a then PosInf else NegInf)
      else round64 (a / b))"
| "fdiv NaN _ = NaN"
| "fdiv _ NaN = NaN"
| "fdiv (Fin a) _ = Fin 0"
| "fdiv PosInf (Fin b) = (if 0 \<le> b then PosInf else NegInf)"
| "fdiv NegInf (Fin b) = (if 0 \<le> b then NegInf else PosInf)"
| "fdiv _ _ = NaN"

definition towardZero :: "real \<Rightarrow> int" where
  "towardZero q = (if 0 \<le> q then \<lfloor>q\<rfloor> else \<lceil>q\<rceil>)"

text \<open>The operator \<^verbatim>\<open>%\<close> on numbers: the remainder has the sign of the dividend.\<close>

fun fmod :: "number \<Rightarrow> number \<Rightarrow> number" where
  "fmod (Fin a) (Fin b) =
     (if b = 0 then NaN else round64 (a - b * of_int (towardZero (a / b))))"
| "fmod (Fin a) PosInf = Fin a"
| "fmod (Fin a) NegInf = Fin a"
| "fmod _ _ = NaN"

text \<open>The operator \<^verbatim>\<open>===\<close> on numbers: NaN differs from everything.\<close>

fun strictEquals :: "number \<Rightarrow> number \<Rightarrow> bool" where
  "strictEquals (Fin a) (Fin b) = (a = b)"
| "strictEquals PosInf PosInf = True"
| "strictEquals NegInf NegInf = True"
| "strictEquals _ _ = False"

section \<open>Strings of the standard library\<close>

definition digitChar :: "nat \<Rightarrow> char" where
  "digitChar d = ''0123456789'' ! (d mod 10)"

fun decimal :: "nat \<Rightarrow> string" where
  "decimal n = (if n < 10 then [digitChar n] else decimal (n div 10) @ [digitChar (n mod 10)])"

declare decimal.simps [simp del]

text \<open>
  \<^verbatim>\<open>Number.prototype.toString()\<close>. For an integer below \<open>2^53\<close> in magnitude the result is
  its decimal numeral. For every other finite value ECMAScript leaves the choice of the
  last digit to the engine; \<open>big\<close> stands for the engine's rendering of those values.
\<close>

definition positiveToString :: "(real \<Rightarrow> string) \<Rightarrow> real \<Rightarrow> string" where
  "positiveToString big a =
     (if of_int \<lfloor>a\<rfloor> = a \<and> a < 2 ^ 53 then decimal (nat \<lfloor>a\<rfloor>) else big a)"

fun numberToString :: "(real \<Rightarrow> string) \<Rightarrow> number \<Rightarrow> string" where
  "numberToString big (Fin r) =
     (if r < 0 then ''-'' @ positiveToString big (- r) else positiveToString big r)"
| "numberToString big PosInf = ''Infinity''"
| "numberToString big NegInf = ''-Infinity''"
| "numberToString big NaN = ''NaN''"

text \<open>\<^verbatim>\<open>String.prototype.padStart(targetLength, padString)\<close>.\<close>

definition padStart :: "string \<Rightarrow> nat \<Rightarrow> string \<Rightarrow> string" where
  "padStart s targetLength padString =
     take (targetLength - length s) (concat (replicate (targetLength - length s) padString)) @ s"

text \<open>
  \<^verbatim>\<open>Number.prototype.toFixed(fractionDigits)\<close>: the nearest multiple of \<open>10^-f\<close>, the
  larger one on a tie, written with exactly \<open>f\<close> digits after the point; values of
  magnitude \<open>10^21\<close> and more, and the non-finite ones, are written as \<^verbatim>\<open>toString\<close>
  writes them.
\<close>

fun toFixed :: "(real \<Rightarrow> string) \<Rightarrow> number \<Rightarrow> nat \<Rightarrow> string" where
  "toFixed big (Fin r) f =
     (let s = (if r < 0 then ''-'' else ''''); a = \<bar>r\<bar>
      in if 10 ^ 21 \<le> a then s @ numberToString big (Fin a)
         else let n = nat \<lfloor>a * 10 ^ f + 1 / 2\<rfloor>;
                  m = padStart (decimal n) (f + 1) ''0'';
                  k = length m
              in if f = 0 then s @ m else s @ take (k - f) m @ ''.'' @ drop (k - f) m)"
| "toFixed big x f = numberToString big x"

text \<open>\<^verbatim>\<open>Array.prototype.join(separator)\<close> on an array of strings.\<close>

fun join :: "string \<Rightarrow> string list \<Rightarrow> string" where
  "join sep [] = []"
| "join sep [x] = x"
| "join sep (x # y # ys) = x @ sep @ join sep (y # ys)"

section \<open>The worker script\<close>

definition approxRollingAverage :: "number \<Rightarrow> number \<Rightarrow> number \<Rightarrow> number" where
  "approxRollingAverage avg newSample n =
     (let avg1 = fsub avg (fdiv avg n);
          avg2 = fadd avg1 (fdiv newSample n)
      in avg2)"

subsection \<open>\<^verbatim>\<open>numberWithCommas\<close>\<close>

text \<open>
  The function is \<^verbatim>\<open>x.replace(/\B(?=(\d{3})+(?!\d))/g, ',')\<close>. The pattern matches the empty
  string, so a global replace tests every position of \<open>x\<close> once, from left to right, and
  puts a comma at each position that matches.
\<close>

definition isDigit :: "char \<Rightarrow> bool" where
  "isDigit c = (c \<in> set ''0123456789'')"

definition isWordChar :: "char \<Rightarrow> bool" where
  "isWordChar c =
     (c \<in> set ''abcdefghijklmnopqrstuvwxyzABCDEFGHIJKLMNOPQRSTUVWXYZ0123456789_'')"

text \<open>The negative lookahead \<^verbatim>\<open>(?!\d)\<close> fails when the rest starts with a digit.\<close>

fun startsWithDigit :: "string \<Rightarrow> bool" where
  "startsWithDigit [] = False"
| "startsWithDigit (c # cs) = isDigit c"

text \<open>\<^verbatim>\<open>(\d{3})+(?!\d)\<close>: one or more groups of three digits, then no digit.\<close>

fun digitGroups :: "string \<Rightarrow> bool" where
  "digitGroups (a # b # c # rest) =
     (isDigit a \<and> isDigit b \<and> isDigit c \<and> (digitGroups rest \<or> \<not> startsWithDigit rest))"
| "digitGroups _ = False"

text \<open>
  \<^verbatim>\<open>\B\<close>: the characters before and after the position are both word characters or both
  not; the two ends of the string count as not.
\<close>

fun startsWithWordChar :: "string \<Rightarrow> bool" where
  "startsWithWordChar [] = False"
| "startsWithWordChar (c # cs) = isWordChar c"

fun notWordBoundary :: "char option \<Rightarrow> string \<Rightarrow> bool" where
  "notWordBoundary None rest = (\<not> startsWithWordChar rest)"
| "notWordBoundary (Some p) rest = (isWordChar p = startsWithWordChar rest)"

definition matchesAt :: "char option \<Rightarrow> string \<Rightarrow> bool" where
  "matchesAt prev rest = (notWordBoundary prev rest \<and> digitGroups rest)"

fun replaceMatches :: "char option \<Rightarrow> string \<Rightarrow> string" where
  "replaceMatches prev [] = (if matchesAt prev [] then '','' else [])"
| "replaceMatches prev (c # cs) =
     (if matchesAt prev (c # cs) then '','' else []) @ c # replaceMatches (Some c) cs"

definition numberWithCommas :: "string \<Rightarrow> string" where
  "numberWithCommas x = replaceMatches None x"

subsection \<open>\<^verbatim>\<open>main\<close>\<close>

text \<open>
  The local variables of \<^verbatim>\<open>main\<close> that live across iterations, with the two output
  channels: the strings handed to \<^verbatim>\<open>self.postMessage\<close> and the lines written by
  \<^verbatim>\<open>console.error\<close>, oldest first.
\<close>

record state =
  generateDataAverage :: number
  hashDataAverage :: number
  signDataAverage :: number
  verifyAverage :: number
  totalSamples :: number
  posted :: "string list"
  consoleErrors :: "string list"

text \<open>
  What one iteration gets from its four \<^verbatim>\<open>timeBlock\<close> calls: the four elapsed times and
  the boolean returned by \<^verbatim>\<open>Ed25519Wrapper.verify\<close>. The random data, its hash and the
  signature reach the rest of the loop only through that boolean.
\<close>

record observation =
  generateDataTime :: number
  hashDataTime :: number
  signDataTime :: number
  verifyTime :: number
  verifyResult :: bool

text \<open>
  One pass through the loop body either completes its four awaited stages with an
  observation, or one of its calls throws and the exception leaves \<^verbatim>\<open>main\<close>.
\<close>

datatype event = Observed observation | Raises

datatype control = Looping | Broke | Threw

definition initial :: state where
  "initial = \<lparr> generateDataAverage = Fin 0, hashDataAverage = Fin 0, signDataAverage = Fin 0,
               verifyAverage = Fin 0, totalSamples = Fin 0, posted = [], consoleErrors = [] \<rparr>"

definition updateAverages :: "state \<Rightarrow> observation \<Rightarrow> state" where
  "updateAverages st ob = st
     \<lparr> generateDataAverage :=
         approxRollingAverage (generateDataAverage st) (generateDataTime ob) (Fin 100),
       hashDataAverage :=
         approxRollingAverage (hashDataAverage st) (hashDataTime ob) (Fin 100),
       signDataAverage :=
         approxRollingAverage (signDataAverage st) (signDataTime ob) (Fin 100),
       verifyAverage :=
         approxRollingAverage (verifyAverage st) (verifyTime ob) (Fin 100),
       totalSamples := fadd (totalSamples st) (Fin 1) \<rparr>"

definition statusMessage :: "(real \<Rightarrow> string) \<Rightarrow> state \<Rightarrow> string" where
  "statusMessage big st = join '' ''
     [ ''totalSamples'',
       numberWithCommas (padStart (numberToString big (totalSamples st)) 10 ''0''),
       ''generate'',
       numberWithCommas (toFixed big (generateDataAverage st) 3) @ ''ms'',
       ''hash'',
       numberWithCommas (toFixed big (hashDataAverage st) 3) @ ''ms'',
       ''sign'',
       numberWithCommas (toFixed big (signDataAverage st) 3) @ ''ms'',
       ''verify'',
       numberWithCommas (toFixed big (verifyAverage st) 3) @ ''ms'' ]"

definition report :: "(real \<Rightarrow> string) \<Rightarrow> state \<Rightarrow> state" where
  "report big st =
     (if strictEquals (fmod (totalSamples st) (Fin 100)) (Fin 0)
      then st \<lparr> posted := posted st @ [statusMessage big st] \<rparr>
      else st)"

text \<open>
  The \<^verbatim>\<open>while (looping)\<close> loop, run on the events of its successive iterations. When the
  events run out the loop is still waiting for its next stage.
\<close>

fun mainLoop :: "(real \<Rightarrow> string) \<Rightarrow> state \<Rightarrow> event list \<Rightarrow> control \<times> state" where
  "mainLoop big st [] = (Looping, st)"
| "mainLoop big st (Raises # es) = (Threw, st)"
| "mainLoop big st (Observed ob # es) =
     (if verifyResult ob = False
      then (Broke, st \<lparr> consoleErrors := consoleErrors st @ [''Failed to Verify''] \<rparr>)
      else mainLoop big (report big (updateAverages st ob)) es)"




subsection \<open>Runs of the loop\<close>

text \<open>An iteration that completes with a signature that verifies.\<close>

fun verified :: "event \<Rightarrow> bool" where
  "verified (Observed ob) = verifyResult ob"
| "verified Raises = False"

text \<open>An observation whose four elapsed times are the same number.\<close>

definition uniformObservation :: "number \<Rightarrow> bool \<Rightarrow> observation" where
  "uniformObservation t v =
     \<lparr> generateDataTime = t, hashDataTime = t, signDataTime = t, verifyTime = t,
       verifyResult = v \<rparr>"

text \<open>
  The update rule as the specification writes it, \<^verbatim>\<open>avg := avg - avg/100 + s/100\<close>, read as
  a JavaScript expression: left to right, each operation rounded.
\<close>

definition specUpdate :: "number \<Rightarrow> number \<Rightarrow> number" where
  "specUpdate avg s = fadd (fsub avg (fdiv avg (Fin 100))) (fdiv s (Fin 100))"

text \<open>
  The value of \<^verbatim>\<open>totalSamples\<close> after \<open>k\<close> verified iterations: the counter is a double, and
  \<open>2^53 + 1\<close> rounds back to \<open>2^53\<close>.
\<close>

definition counterAfter :: "nat \<Rightarrow> nat" where
  "counterAfter k = min k (2 ^ 53)"

text \<open>
  The closed form of the specification for a constant sample of 5: the exact value of the
  recurrence \<open>avg := avg - avg/100 + 5/100\<close> after \<open>k\<close> updates from 0.
\<close>

definition closedForm :: "nat \<Rightarrow> real" where
  "closedForm k = 5 * (1 - (99 / 100) ^ k)"




section \<open>Powers of two and the binary exponent\<close>

lemma p2_pos: "0 < (2::real) powi n"
  by (simp add: zero_less_power_int)

lemma p2_add: "(2::real) powi (m + n) = 2 powi m * 2 powi n"
  by (simp add: power_int_add)

lemma p2_ge1: "0 \<le> k \<Longrightarrow> 1 \<le> (2::real) powi k"
  by (simp add: power_int_nonneg_exp)

lemma p2_mono: "m \<le> n \<Longrightarrow> (2::real) powi m \<le> 2 powi n"
proof -
  assume "m \<le> n"
  then have "1 \<le> (2::real) powi (n - m)" by (simp add: p2_ge1)
  moreover have "(2::real) powi n = 2 powi m * 2 powi (n - m)"
    using p2_add [of m "n - m"] by simp
  ultimately show ?thesis by simp
qed

lemma p2_strict: "m < n \<Longrightarrow> (2::real) powi m < 2 powi n"
proof -
  assume "m < n"
  then have "m + 1 \<le> n" by simp
  then have "(2::real) powi (m + 1) \<le> 2 powi n" by (rule p2_mono)
  moreover have "(2::real) powi (m + 1) = 2 powi m * 2" by (simp add: p2_add)
  ultimately show ?thesis using p2_pos [of m] by linarith
qed

lemma p2_less_iff: "(2::real) powi m < 2 powi n \<longleftrightarrow> m < n"
  using p2_strict [of m n] p2_mono [of n m] by (auto simp: not_less [symmetric])

lemma p2_le_iff: "(2::real) powi m \<le> 2 powi n \<longleftrightarrow> m \<le> n"
  using p2_strict [of n m] p2_mono [of m n] by (auto simp: not_le [symmetric])

lemma p2_nat: "0 \<le> k \<Longrightarrow> (2::real) powi k = of_int (2 ^ nat k)"
  by (simp add: power_int_nonneg_exp)

lemma expo_bounds:
  assumes "x \<noteq> 0"
  shows "2 powi (expo x) \<le> \<bar>x\<bar>" and "\<bar>x\<bar> < 2 powi (expo x + 1)"
proof -
  have "2 powi (expo x) \<le> \<bar>x\<bar> \<and> \<bar>x\<bar> < 2 powi (expo x + 1)"
  proof (cases "1 \<le> \<bar>x\<bar>")
    case True
    define m where "m = \<lfloor>\<bar>x\<bar>\<rfloor>"
    have m: "0 < m" "of_int m \<le> \<bar>x\<bar>" "\<bar>x\<bar> < of_int (m + 1)"
      using True floor_correct [of "\<bar>x\<bar>"] by (simp_all add: m_def)
    have e: "expo x = bitlen m - 1" using True by (simp add: expo_def m_def)
    from bitlen_bounds [OF m(1)]
    have b: "2 ^ nat (bitlen m - 1) \<le> m" "m + 1 \<le> 2 ^ nat (bitlen m)" by simp_all
    have pos: "1 \<le> bitlen m" using m(1) by (simp add: bitlen_alt_def)
    have "(2::real) powi (expo x) = of_int (2 ^ nat (bitlen m - 1))"
      using pos by (simp add: e p2_nat)
    also have "\<dots> \<le> of_int m" using b(1) by (simp only: of_int_le_iff)
    finally have lo: "2 powi (expo x) \<le> \<bar>x\<bar>" using m(2) by linarith
    have "(2::real) powi (expo x + 1) = of_int (2 ^ nat (bitlen m))"
      using pos by (simp add: e p2_nat)
    moreover have "real_of_int (m + 1) \<le> of_int (2 ^ nat (bitlen m))"
      using b(2) by (simp only: of_int_le_iff)
    ultimately have "\<bar>x\<bar> < 2 powi (expo x + 1)" using m(3) by linarith
    with lo show ?thesis by simp
  next
    case False
    define y where "y = 1 / \<bar>x\<bar>"
    define k where "k = \<lceil>y\<rceil> - 1"
    have xpos: "0 < \<bar>x\<bar>" using assms by simp
    have y1: "1 < y" using False xpos by (simp add: y_def)
    have k2: "of_int k < y" and k3: "y \<le> of_int (k + 1)"
      unfolding k_def using ceiling_correct [of y] by simp_all
    have "1 < real_of_int (k + 1)" using y1 k3 by linarith
    then have k1: "0 < k" by linarith
    note k = k1 k2 k3
    have e: "expo x = - bitlen k" using False by (simp add: expo_def k_def y_def)
    from bitlen_bounds [OF k(1)]
    have b: "2 ^ nat (bitlen k - 1) \<le> k" "k + 1 \<le> 2 ^ nat (bitlen k)" by simp_all
    have pos: "1 \<le> bitlen k" using k(1) by (simp add: bitlen_alt_def)
    have x: "\<bar>x\<bar> = 1 / y" using xpos by (simp add: y_def)
    have "real_of_int (k + 1) \<le> of_int (2 ^ nat (bitlen k))"
      using b(2) by (simp only: of_int_le_iff)
    moreover have "(2::real) powi (bitlen k) = real_of_int (2 ^ nat (bitlen k))"
      using pos by (simp add: p2_nat)
    ultimately have "y \<le> 2 powi (bitlen k)" using k(3) by linarith
    then have "1 / 2 powi (bitlen k) \<le> 1 / y"
      using y1 by (simp add: frac_le)
    then have lo: "2 powi (expo x) \<le> \<bar>x\<bar>"
      by (simp add: e x power_int_minus_divide)
    have "real_of_int (2 ^ nat (bitlen k - 1)) \<le> of_int k"
      using b(1) by (simp only: of_int_le_iff)
    moreover have "(2::real) powi (bitlen k - 1) = real_of_int (2 ^ nat (bitlen k - 1))"
      using pos by (simp add: p2_nat)
    ultimately have "2 powi (bitlen k - 1) < y" using k(2) by linarith
    then have "1 / y < 1 / 2 powi (bitlen k - 1)"
      by (simp add: frac_less2)
    moreover have "expo x + 1 = - (bitlen k - 1)" by (simp add: e)
    ultimately have "\<bar>x\<bar> < 2 powi (expo x + 1)"
      by (simp only: x power_int_minus_divide)
    with lo show ?thesis by simp
  qed
  then show "2 powi (expo x) \<le> \<bar>x\<bar>" and "\<bar>x\<bar> < 2 powi (expo x + 1)" by simp_all
qed

lemma expo_unique:
  assumes "2 powi k \<le> \<bar>x\<bar>" and "\<bar>x\<bar> < 2 powi (k + 1)"
  shows "expo x = k"
proof -
  have "0 < \<bar>x\<bar>" using assms(1) p2_pos [of k] by linarith
  then have "x \<noteq> 0" by simp
  note b = expo_bounds [OF this]
  have "(2::real) powi (expo x) < 2 powi (k + 1)" using b(1) assms(2) by linarith
  then have "expo x < k + 1" by (simp only: p2_less_iff)
  moreover have "(2::real) powi k < 2 powi (expo x + 1)" using b(2) assms(1) by linarith
  then have "k < expo x + 1" by (simp only: p2_less_iff)
  ultimately show ?thesis by simp
qed

section \<open>Rounding to the nearest double\<close>

lemma roundTiesToEven_error: "\<bar>of_int (roundTiesToEven y) - y\<bar> \<le> 1 / 2"
proof -
  have "of_int \<lfloor>y\<rfloor> \<le> y" "y < of_int \<lfloor>y\<rfloor> + 1"
    using floor_correct [of y] by simp_all
  then show ?thesis
    by (auto simp: roundTiesToEven_def Let_def)
qed

lemma roundTiesToEven_of_int [simp]: "roundTiesToEven (of_int k) = k"
  by (simp add: roundTiesToEven_def)


lemma roundTiesToEven_ge:
  assumes "of_int A \<le> y"
  shows "A \<le> roundTiesToEven y"
proof -
  have "A \<le> \<lfloor>y\<rfloor>" using assms by (simp add: le_floor_iff)
  moreover have "\<lfloor>y\<rfloor> \<le> roundTiesToEven y"
    by (simp add: roundTiesToEven_def Let_def)
  ultimately show ?thesis by linarith
qed

lemma ulp_pos: "0 < ulp x"
  by (simp add: ulp_def p2_pos)

lemma nearest_error: "\<bar>nearest x - x\<bar> \<le> ulp x / 2"
proof -
  have "nearest x - x = (of_int (roundTiesToEven (x / ulp x)) - x / ulp x) * ulp x"
    using ulp_pos [of x] by (simp add: nearest_def algebra_simps)
  then have "\<bar>nearest x - x\<bar> = \<bar>of_int (roundTiesToEven (x / ulp x)) - x / ulp x\<bar> * ulp x"
    using ulp_pos [of x] by (simp add: abs_mult)
  also have "\<dots> \<le> (1 / 2) * ulp x"
    using roundTiesToEven_error [of "x / ulp x"] ulp_pos [of x]
    by (intro mult_right_mono) simp_all
  finally show ?thesis by simp
qed

lemma nearest_nonneg: "0 \<le> x \<Longrightarrow> 0 \<le> nearest x"
proof -
  assume "0 \<le> x"
  then have "of_int 0 \<le> x / ulp x" using ulp_pos [of x] by simp
  then have "0 \<le> roundTiesToEven (x / ulp x)" by (rule roundTiesToEven_ge)
  then show ?thesis using ulp_pos [of x] by (simp add: nearest_def)
qed

lemma ulp_le:
  assumes "x \<noteq> 0" and "\<bar>x\<bar> < 2 powi k"
  shows "ulp x \<le> 2 powi (max (k - 1) (- 1022) - 52)"
proof -
  have "(2::real) powi (expo x) < 2 powi k"
    using expo_bounds(1) [OF assms(1)] assms(2) by linarith
  then have "expo x < k" by (simp only: p2_less_iff)
  then have "max (expo x) (- 1022) - 52 \<le> max (k - 1) (- 1022) - 52" by simp
  then show ?thesis unfolding ulp_def by (rule p2_mono)
qed

lemma maxValue_bound: "2 powi 1023 + 2 powi 970 \<le> maxValue"
  by (simp add: maxValue_def)

lemma round64_zero [simp]: "round64 0 = Fin 0"
  by (simp add: round64_def)

lemma round64_error:
  assumes "\<bar>x\<bar> < 2 powi k" and "k \<le> 1023"
  shows "\<exists>r. round64 x = Fin r \<and> \<bar>r - x\<bar> \<le> 2 powi (max (k - 1) (- 1022) - 53)
           \<and> (0 \<le> x \<longrightarrow> 0 \<le> r)"
proof (cases "x = 0")
  case True
  then show ?thesis using p2_pos [of "max (k - 1) (- 1022) - 53"] by simp
next
  case False
  let ?h = "(2::real) powi (max (k - 1) (- 1022) - 53)"
  have "ulp x / 2 \<le> 2 powi (max (k - 1) (- 1022) - 52) / 2"
    using ulp_le [OF False assms(1)] by simp
  also have "\<dots> = ?h"
    using p2_add [of "max (k - 1) (- 1022) - 53" 1] by simp
  finally have err: "\<bar>nearest x - x\<bar> \<le> ?h"
    using nearest_error [of x] by linarith
  have "max (k - 1) (- 1022) - 53 \<le> 970" using assms(2) by simp
  then have "?h \<le> 2 powi 970" by (rule p2_mono)
  moreover have "(2::real) powi k \<le> 2 powi 1023" using assms(2) by (rule p2_mono)
  ultimately have "\<bar>nearest x\<bar> \<le> maxValue"
    using err assms(1) maxValue_bound by linarith
  then have "\<not> maxValue < nearest x" "\<not> nearest x < - maxValue" by linarith+
  then have "round64 x = Fin (nearest x)"
    using False by (simp add: round64_def)
  then show ?thesis using err nearest_nonneg [of x] by simp
qed

lemma nearest_on_grid:
  assumes "x / ulp x = of_int j"
  shows "nearest x = x"
proof -
  have "nearest x = of_int j * ulp x" by (simp add: nearest_def assms)
  also have "\<dots> = (x / ulp x) * ulp x" by (simp add: assms)
  also have "\<dots> = x" using ulp_pos [of x] by simp
  finally show ?thesis .
qed

lemma round64_double: "is_double x \<Longrightarrow> round64 x = Fin x"
proof -
  assume d: "is_double x"
  then have q: "of_int \<lfloor>x / ulp x\<rfloor> = x / ulp x" and m: "\<bar>x\<bar> \<le> maxValue"
    unfolding is_double_def by blast+
  from q [symmetric] have n: "nearest x = x" by (rule nearest_on_grid)
  from m have "\<not> maxValue < x" "\<not> x < - maxValue" by linarith+
  then show ?thesis by (simp add: round64_def n)
qed

lemma is_double_zero [simp]: "is_double 0"
  by (simp add: is_double_def maxValue_def)

lemma p2_int: "0 \<le> k \<Longrightarrow> \<exists>j::int. (2::real) powi k = of_int j"
  by (metis p2_nat)

lemma grid_refine:
  assumes "(x::real) / 2 powi m = of_int j" and "n \<le> m"
  shows "\<exists>i::int. x / 2 powi n = of_int i"
proof -
  obtain c :: int where c: "(2::real) powi (m - n) = of_int c"
    using p2_int [of "m - n"] assms(2) by auto
  have "(2::real) powi m = 2 powi n * 2 powi (m - n)" using p2_add [of n "m - n"] by simp
  moreover have "(2::real) powi n \<noteq> 0" "(2::real) powi (m - n) \<noteq> 0"
    using p2_pos [of n] p2_pos [of "m - n"] by simp_all
  ultimately have "x / 2 powi n = (x / 2 powi m) * 2 powi (m - n)"
    by (simp add: field_simps)
  then have "x / 2 powi n = of_int (j * c)" by (simp add: assms(1) c)
  then show ?thesis by blast
qed

lemma is_double_int:
  assumes "\<bar>n\<bar> \<le> 2 ^ 53"
  shows "is_double (of_int n)"
proof (cases "n = 0")
  case True
  then show ?thesis by simp
next
  case False
  let ?x = "real_of_int n"
  have nz: "?x \<noteq> 0" using False by simp
  have le: "\<bar>?x\<bar> \<le> 2 powi 53"
  proof -
    have "real_of_int \<bar>n\<bar> \<le> real_of_int (2 ^ 53)" using assms by (simp only: of_int_le_iff)
    then show ?thesis by simp
  qed
  have "1 \<le> \<bar>n\<bar>" using False by simp
  then have "real_of_int 1 \<le> real_of_int \<bar>n\<bar>" by (simp only: of_int_le_iff)
  then have ge: "2 powi 0 \<le> \<bar>?x\<bar>" by simp
  have "(2::real) powi 0 < 2 powi (expo ?x + 1)" using ge expo_bounds(2) [OF nz] by linarith
  then have "0 < expo ?x + 1" by (simp only: p2_less_iff)
  then have e0: "0 \<le> expo ?x" by simp
  have "(2::real) powi (expo ?x) \<le> 2 powi 53" using le expo_bounds(1) [OF nz] by linarith
  then have e53: "expo ?x \<le> 53" by (simp only: p2_le_iff)
  have u: "ulp ?x = 2 powi (expo ?x - 52)" using e0 by (simp add: ulp_def max_def)
  have "\<exists>i::int. ?x / ulp ?x = of_int i"
  proof (cases "expo ?x = 53")
    case True
    have "2 powi 53 \<le> \<bar>?x\<bar>" using expo_bounds(1) [OF nz] True by simp
    with le have "\<bar>?x\<bar> = 2 powi 53" by linarith
    then consider "?x = 2 ^ 53" | "?x = - (2 ^ 53)"
      by (auto simp: abs_if split: if_splits)
    then show ?thesis
    proof cases
      case 1
      have "ulp ?x = 2" using True by (simp add: u)
      then have "?x / ulp ?x = real_of_int (2 ^ 52)" by (simp add: 1)
      then show ?thesis by blast
    next
      case 2
      have "ulp ?x = 2" using True by (simp add: u)
      then have "?x / ulp ?x = real_of_int (- (2 ^ 52))" by (simp add: 2)
      then show ?thesis by blast
    qed
  next
    case False
    with e53 have "expo ?x - 52 \<le> 0" by simp
    moreover have "?x / 2 powi 0 = of_int n" by simp
    ultimately show ?thesis unfolding u by (rule grid_refine [rotated])
  qed
  then have "of_int \<lfloor>?x / ulp ?x\<rfloor> = ?x / ulp ?x" by (auto simp: of_int_floor_cancel)
  moreover have "\<bar>?x\<bar> \<le> maxValue" using le maxValue_bound p2_mono [of 53 1023] p2_pos [of 970] by linarith
  ultimately show ?thesis by (simp add: is_double_def)
qed

lemma round64_int: "\<bar>n\<bar> \<le> 2 ^ 53 \<Longrightarrow> round64 (of_int n) = Fin (of_int n)"
  by (rule round64_double) (rule is_double_int)

section \<open>Evaluation on numerals\<close>

lemmas num_eval = expo_def ulp_def roundTiesToEven_def maxValue_def nearest_def round64_def
  compute_bitlen fsub_def approxRollingAverage_def towardZero_def Let_def

lemmas loop_eval = uniformObservation_def initial_def updateAverages_def report_def

lemma replicate_numeral: "replicate (numeral k) x = x # replicate (pred_numeral k) x"
  by (simp add: numeral_eq_Suc)

lemma decimal_numeral:
  "decimal (numeral k) =
     (if (numeral k :: nat) < 10 then [digitChar (numeral k)]
      else decimal (numeral k div 10) @ [digitChar (numeral k mod 10)])"
  "decimal 0 = ''0''"
  "decimal 1 = ''1''"
  "decimal (Suc 0) = ''1''"
  by (simp_all add: decimal.simps[of "numeral k"] decimal.simps[of 0] decimal.simps[of 1]
      decimal.simps[of "Suc 0"] digitChar_def)

lemmas str_eval = positiveToString_def decimal_numeral digitChar_def padStart_def
  numberWithCommas_def matchesAt_def isDigit_def isWordChar_def replicate_numeral Let_def

section \<open>Properties of \<^verbatim>\<open>numberWithCommas\<close>\<close>

lemma replaceMatches_strip:
  "filter (\<lambda>c. c \<noteq> CHR '','') (replaceMatches prev x) = filter (\<lambda>c. c \<noteq> CHR '','') x"
  by (induction x arbitrary: prev) simp_all

lemma replaceMatches_subseq: "subseq x (replaceMatches prev x)"
  by (induction x arbitrary: prev) (auto intro: list_emb_Cons)

text \<open>
  Claim C6. For \<^verbatim>\<open>totalSamples = 1234567\<close> the sample-count token of the status line,
  \<^verbatim>\<open>numberWithCommas(totalSamples.toString().padStart(10, '0'))\<close>, is the string
  \<^verbatim>\<open>0,001,234,567\<close>, whatever the engine.
\<close>

theorem sample_count_token_1234567:
  "numberWithCommas (padStart (numberToString big (Fin 1234567)) 10 ''0'') = ''0,001,234,567''"
  by (simp add: str_eval)

theorem sample_count_token_1234567_witness:
  "numberWithCommas (padStart (numberToString (\<lambda>a. []) (Fin 1234567)) 10 ''0'')
     = ''0,001,234,567''"
  using sample_count_token_1234567 [of "\<lambda>a. []"] .

text \<open>
  Claim C10, as stated, fails on an input that already holds a comma: nothing is inserted
  into \<^verbatim>\<open>1,000\<close>, and deleting every comma from the output gives \<^verbatim>\<open>1000\<close>, not the input.
\<close>

theorem numberWithCommas_strip_counterexample:
  "filter (\<lambda>c. c \<noteq> CHR '','') (numberWithCommas ''1,000'') \<noteq> ''1,000''"
  by (simp add: str_eval)

text \<open>
  Claim C10, amended. \<^verbatim>\<open>numberWithCommas\<close> only inserts commas: the input is a subsequence
  of the output (no character of it is changed, removed or reordered), and deleting every
  comma from the output gives the input with its own commas deleted; so an input without
  a comma is recovered exactly.
\<close>

theorem numberWithCommas_only_inserts_commas:
  "subseq x (numberWithCommas x)
   \<and> filter (\<lambda>c. c \<noteq> CHR '','') (numberWithCommas x) = filter (\<lambda>c. c \<noteq> CHR '','') x
   \<and> (CHR '','' \<notin> set x \<longrightarrow> filter (\<lambda>c. c \<noteq> CHR '','') (numberWithCommas x) = x)"
proof -
  have strip: "filter (\<lambda>c. c \<noteq> CHR '','') (numberWithCommas x) = filter (\<lambda>c. c \<noteq> CHR '','') x"
    unfolding numberWithCommas_def by (rule replaceMatches_strip)
  have "CHR '','' \<notin> set x \<Longrightarrow> filter (\<lambda>c. c \<noteq> CHR '','') x = x"
    by (rule filter_True) auto
  with strip show ?thesis
    unfolding numberWithCommas_def by (simp add: replaceMatches_subseq)
qed

theorem numberWithCommas_only_inserts_commas_witness:
  "numberWithCommas ''1234567'' = ''1,234,567''
   \<and> subseq ''1234567'' (numberWithCommas ''1234567'')
   \<and> CHR '','' \<notin> set ''1234567''
   \<and> filter (\<lambda>c. c \<noteq> CHR '','') (numberWithCommas ''1234567'') = ''1234567''"
  using numberWithCommas_only_inserts_commas [of "''1234567''"]
  by (simp add: str_eval)

section \<open>The loop\<close>

lemma mainLoop_append:
  "list_all verified pre \<Longrightarrow>
     mainLoop big st (pre @ es) = mainLoop big (snd (mainLoop big st pre)) es"
proof (induction pre arbitrary: st)
  case Nil
  then show ?case by simp
next
  case (Cons e pre)
  then show ?case by (cases e) simp_all
qed


text \<open>
  Claim C1. When an iteration's \<^verbatim>\<open>verify\<close> returns false, the loop writes the error
  report and is left by \<^verbatim>\<open>break\<close>: whatever events would follow are never consumed, and
  the state is the one before that iteration (the four averages, \<^verbatim>\<open>totalSamples\<close> and the
  posted messages unchanged) with the line \<^verbatim>\<open>Failed to Verify\<close> added to the error stream.
\<close>

theorem verify_failure_halts:
  assumes "list_all verified pre" and "verifyResult ob = False"
  shows "mainLoop big st (pre @ Observed ob # post) =
           (Broke, (snd (mainLoop big st pre))
              \<lparr> consoleErrors := consoleErrors (snd (mainLoop big st pre)) @ [''Failed to Verify''] \<rparr>)"
  using assms by (simp add: mainLoop_append)

theorem verify_failure_halts_witness:
  "mainLoop (\<lambda>a. []) initial
      [Observed (uniformObservation (Fin 0) True), Observed (uniformObservation (Fin 5) False),
       Observed (uniformObservation (Fin 0) True)]
   = (Broke, initial \<lparr> totalSamples := Fin 1, consoleErrors := [''Failed to Verify''] \<rparr>)"
  using verify_failure_halts [of "[Observed (uniformObservation (Fin 0) True)]"
      "uniformObservation (Fin 5) False" "\<lambda>a. []" initial
      "[Observed (uniformObservation (Fin 0) True)]"]
  by (simp add: loop_eval num_eval)

lemma approxRollingAverage_100: "approxRollingAverage avg s (Fin 100) = specUpdate avg s"
  by (simp add: approxRollingAverage_def specUpdate_def)

lemma mainLoop_averages:
  "list_all verifyResult obs \<Longrightarrow>
     generateDataAverage (snd (mainLoop big st (map Observed obs)))
       = foldl specUpdate (generateDataAverage st) (map generateDataTime obs)
   \<and> hashDataAverage (snd (mainLoop big st (map Observed obs)))
       = foldl specUpdate (hashDataAverage st) (map hashDataTime obs)
   \<and> signDataAverage (snd (mainLoop big st (map Observed obs)))
       = foldl specUpdate (signDataAverage st) (map signDataTime obs)
   \<and> verifyAverage (snd (mainLoop big st (map Observed obs)))
       = foldl specUpdate (verifyAverage st) (map verifyTime obs)"
proof (induction obs arbitrary: st)
  case Nil
  then show ?case by simp
next
  case (Cons ob obs)
  then show ?case
    by (simp add: updateAverages_def report_def approxRollingAverage_100)
qed






lemma statusMessage_tokens:
  "statusMessage big st =
     ''totalSamples '' @ numberWithCommas (padStart (numberToString big (totalSamples st)) 10 ''0'')
     @ '' generate '' @ numberWithCommas (toFixed big (generateDataAverage st) 3) @ ''ms''
     @ '' hash '' @ numberWithCommas (toFixed big (hashDataAverage st) 3) @ ''ms''
     @ '' sign '' @ numberWithCommas (toFixed big (signDataAverage st) 3) @ ''ms''
     @ '' verify '' @ numberWithCommas (toFixed big (verifyAverage st) 3) @ ''ms''"
  by (simp add: statusMessage_def)




section \<open>The sample counter\<close>

lemma round64_nat: "n \<le> 2 ^ 53 \<Longrightarrow> round64 (real n) = Fin (real n)"
proof -
  assume "n \<le> 2 ^ 53"
  then have "int n \<le> 2 ^ 53" by (metis of_nat_le_iff of_nat_numeral of_nat_power)
  then have "\<bar>int n\<bar> \<le> 2 ^ 53" by simp
  from round64_int [OF this] show ?thesis by simp
qed

lemma counter_increment:
  assumes "c < 2 ^ 53"
  shows "fadd (Fin (real c)) (Fin 1) = Fin (real (Suc c))"
proof -
  from assms have "Suc c \<le> 2 ^ 53" by simp
  from round64_nat [OF this] have "round64 (real (Suc c)) = Fin (real (Suc c))" .
  moreover have "real (Suc c) = real c + 1" by simp
  ultimately have "round64 (real c + 1) = Fin (real (Suc c))" by (simp only:)
  then show ?thesis by (simp only: fadd.simps)
qed

lemma counter_saturated: "fadd (Fin 9007199254740992) (Fin 1) = Fin 9007199254740992"
  by (simp add: num_eval)

lemma counterAfter_le: "counterAfter k \<le> 2 ^ 53"
  by (simp add: counterAfter_def)

lemma counterAfter_0 [simp]: "counterAfter 0 = 0"
  by (simp add: counterAfter_def)

lemma counterAfter_step:
  "fadd (Fin (real (counterAfter k))) (Fin 1) = Fin (real (counterAfter (Suc k)))"
proof (cases "k < 2 ^ 53")
  case True
  then have "counterAfter k = k" "counterAfter (Suc k) = Suc k"
    by (simp_all add: counterAfter_def)
  then show ?thesis using counter_increment [OF True] by (simp only:)
next
  case False
  then have "counterAfter k = 9007199254740992" "counterAfter (Suc k) = 9007199254740992"
    by (simp_all add: counterAfter_def)
  then show ?thesis using counter_saturated by (simp only: of_nat_numeral)
qed

lemma counterAfter_dvd: "(100 dvd counterAfter k) = (100 dvd k \<and> k \<le> 2 ^ 53)"
proof (cases "k \<le> 2 ^ 53")
  case True
  then show ?thesis by (simp add: counterAfter_def)
next
  case False
  then have "counterAfter k = 9007199254740992" by (simp add: counterAfter_def)
  then show ?thesis using False by simp
qed

lemma counter_fmod:
  assumes "c \<le> 2 ^ 53"
  shows "fmod (Fin (real c)) (Fin 100) = Fin (real (c mod 100))"
proof -
  have "\<lfloor>real c / 100\<rfloor> = int (c div 100)"
    by (metis floor_divide_of_nat_eq of_nat_numeral)
  then have "towardZero (real c / 100) = int (c div 100)"
    by (simp add: towardZero_def)
  then have "real c - 100 * of_int (towardZero (real c / 100)) = real c - 100 * real (c div 100)"
    by simp
  also have "\<dots> = real (c mod 100)"
  proof -
    have "real c = real (100 * (c div 100) + c mod 100)" by simp
    then show ?thesis by (simp only: of_nat_add of_nat_mult of_nat_numeral)
  qed
  finally have "fmod (Fin (real c)) (Fin 100) = round64 (real (c mod 100))"
    by (simp only: fmod.simps) simp
  moreover have "c mod 100 \<le> 2 ^ 53" using assms by (meson le_trans mod_less_eq_dividend)
  ultimately show ?thesis by (simp only: round64_nat)
qed

lemma report_counter:
  assumes "totalSamples st = Fin (real c)" and "c \<le> 2 ^ 53"
  shows "report big st =
     (if 100 dvd c then st \<lparr> posted := posted st @ [statusMessage big st] \<rparr> else st)"
proof -
  have "strictEquals (fmod (totalSamples st) (Fin 100)) (Fin 0) = (c mod 100 = 0)"
    unfolding assms(1) counter_fmod [OF assms(2)] by simp
  then show ?thesis unfolding report_def by (simp only: dvd_eq_mod_eq_0)
qed

lemma list_all_verified_map: "list_all verified (map Observed obs) = list_all verifyResult obs"
  by (induction obs) simp_all

lemma mainLoop_snoc:
  assumes "list_all verifyResult obs" and "verifyResult ob"
  shows "snd (mainLoop big st (map Observed (obs @ [ob])))
           = report big (updateAverages (snd (mainLoop big st (map Observed obs))) ob)"
  using assms by (simp add: mainLoop_append list_all_verified_map)

lemma totalSamples_update:
  "totalSamples (report big (updateAverages st ob)) = fadd (totalSamples st) (Fin 1)"
  by (simp add: report_def updateAverages_def)

lemma mainLoop_totalSamples:
  "list_all verifyResult obs \<Longrightarrow>
     totalSamples (snd (mainLoop big initial (map Observed obs)))
       = Fin (real (counterAfter (length obs)))"
proof (induction obs rule: rev_induct)
  case Nil
  then show ?case by (simp add: initial_def)
next
  case (snoc ob obs)
  then have v: "list_all verifyResult obs" "verifyResult ob" by simp_all
  have "totalSamples (snd (mainLoop big initial (map Observed (obs @ [ob]))))
      = fadd (Fin (real (counterAfter (length obs)))) (Fin 1)"
    unfolding mainLoop_snoc [OF v] totalSamples_update snoc.IH [OF v(1)] ..
  then show ?case by (simp only: counterAfter_step length_append_singleton)
qed

lemma mainLoop_status_line:
  assumes "list_all verifyResult obs" and "verifyResult ob"
  shows "posted (snd (mainLoop big initial (map Observed (obs @ [ob]))))
           = posted (snd (mainLoop big initial (map Observed obs)))
             @ (if 100 dvd counterAfter (Suc (length obs))
                then [statusMessage big (updateAverages (snd (mainLoop big initial (map Observed obs))) ob)]
                else [])"
proof -
  let ?st = "snd (mainLoop big initial (map Observed obs))"
  have "list_all verifyResult (obs @ [ob])" using assms by simp
  from mainLoop_totalSamples [OF this, of big]
  have "totalSamples (report big (updateAverages ?st ob)) = Fin (real (counterAfter (Suc (length obs))))"
    by (simp only: mainLoop_snoc [OF assms] length_append_singleton)
  then have u: "totalSamples (updateAverages ?st ob) = Fin (real (counterAfter (Suc (length obs))))"
    by (simp add: report_def split: if_splits)
  have "posted (updateAverages ?st ob) = posted ?st" by (simp add: updateAverages_def)
  then show ?thesis
    unfolding mainLoop_snoc [OF assms] report_counter [OF u counterAfter_le] by simp
qed


text \<open>
  Claim C5, amended. After a verified iteration a status line is posted if and only if the
  incremented counter is a multiple of 100. The counter is the number of the iteration up
  to \<open>2^53\<close>, so messages are posted exactly on the verified iterations 100, 200, 300, ...
  up to \<open>2^53\<close>; from there the counter stays at 9007199254740992 and nothing more is
  posted.
\<close>

theorem status_line_every_100:
  assumes "list_all verifyResult obs" and "verifyResult ob"
  shows "totalSamples (snd (mainLoop big initial (map Observed (obs @ [ob]))))
           = Fin (real (counterAfter (Suc (length obs))))
       \<and> posted (snd (mainLoop big initial (map Observed (obs @ [ob]))))
           = posted (snd (mainLoop big initial (map Observed obs)))
             @ (if 100 dvd counterAfter (Suc (length obs))
                then [statusMessage big
                        (updateAverages (snd (mainLoop big initial (map Observed obs))) ob)]
                else [])
       \<and> (100 dvd counterAfter (Suc (length obs)))
           = (100 dvd Suc (length obs) \<and> Suc (length obs) \<le> 2 ^ 53)"
proof -
  have "list_all verifyResult (obs @ [ob])" using assms by simp
  from mainLoop_totalSamples [OF this, of big] mainLoop_status_line [OF assms, of big]
  show ?thesis by (simp only: counterAfter_dvd length_append_singleton simp_thms)
qed

theorem status_line_every_100_witness:
  "list_all verifyResult (replicate 99 (uniformObservation (Fin 0) True))
   \<and> verifyResult (uniformObservation (Fin 0) True)
   \<and> totalSamples (snd (mainLoop (\<lambda>a. []) initial
         (map Observed (replicate 99 (uniformObservation (Fin 0) True)
            @ [uniformObservation (Fin 0) True])))) = Fin 100
   \<and> posted (snd (mainLoop (\<lambda>a. []) initial
         (map Observed (replicate 99 (uniformObservation (Fin 0) True)
            @ [uniformObservation (Fin 0) True]))))
       = posted (snd (mainLoop (\<lambda>a. []) initial
           (map Observed (replicate 99 (uniformObservation (Fin 0) True)))))
         @ [statusMessage (\<lambda>a. [])
              (updateAverages (snd (mainLoop (\<lambda>a. []) initial
                 (map Observed (replicate 99 (uniformObservation (Fin 0) True)))))
               (uniformObservation (Fin 0) True))]"
proof -
  have h: "list_all verifyResult (replicate 99 (uniformObservation (Fin 0) True))"
    "verifyResult (uniformObservation (Fin 0) True)"
    by (simp_all add: list_all_iff uniformObservation_def)
  have c: "counterAfter (Suc (length (replicate 99 (uniformObservation (Fin 0) True)))) = 100"
    by (simp add: counterAfter_def)
  show ?thesis
    using h status_line_every_100 [OF h, of "\<lambda>a. []"] unfolding c by simp
qed

text \<open>
  Claim C5, as stated, fails at iteration 9007199254741000: it is a multiple of 100, and
  the iteration posts nothing.
\<close>

theorem status_line_counterexample:
  "100 dvd (9007199254741000 :: nat)
   \<and> posted (snd (mainLoop (\<lambda>a. []) initial
         (map Observed (replicate 9007199254741000 (uniformObservation (Fin 0) True)))))
     = posted (snd (mainLoop (\<lambda>a. []) initial
         (map Observed (replicate 9007199254740999 (uniformObservation (Fin 0) True)))))"
proof -
  let ?u = "uniformObservation (Fin 0) True"
  have h: "list_all verifyResult (replicate 9007199254740999 ?u)" "verifyResult ?u"
    by (simp_all add: list_all_iff uniformObservation_def)
  have r: "replicate 9007199254741000 ?u = replicate 9007199254740999 ?u @ [?u]"
  proof -
    have "(9007199254741000 :: nat) = Suc 9007199254740999" by simp
    then show ?thesis by (simp only: replicate_Suc replicate_append_same)
  qed
  have n: "\<not> 100 dvd counterAfter (Suc (length (replicate 9007199254740999 ?u)))"
    by (simp add: counterAfter_dvd)
  show ?thesis
    using mainLoop_status_line [OF h, of "\<lambda>a. []"] unfolding r using n by simp
qed

section \<open>Rounded values are doubles\<close>


lemma nearest_zero [simp]: "nearest 0 = 0"
  by (simp add: nearest_def roundTiesToEven_def)






section \<open>A constant sample of 5\<close>

lemma half_ulp_8: "\<bar>x\<bar> < 8 \<Longrightarrow> \<exists>r. round64 x = Fin r \<and> \<bar>r - x\<bar> \<le> 2 powi (- 51)"
proof -
  assume "\<bar>x\<bar> < 8"
  then have "\<bar>x\<bar> < 2 powi 3" by simp
  moreover have "(3::int) \<le> 1023" by simp
  moreover have "max (3 - 1) (- 1022) - 53 = (- 51 :: int)" by simp
  ultimately show ?thesis using round64_error [of x 3] by (simp only:) blast
qed

lemma p2_m51: "(2::real) powi (- 51) \<le> 1 / 10 ^ 15"
  by simp

lemma specUpdate_error:
  assumes "\<bar>a\<bar> \<le> 6" and "\<bar>s\<bar> \<le> 6"
  shows "\<exists>r. specUpdate (Fin a) (Fin s) = Fin r
           \<and> \<bar>r - (a - a / 100 + s / 100)\<bar> \<le> 4 * 2 powi (- 51)"
proof -
  let ?h = "(2::real) powi (- 51)"
  note h = p2_m51
  have "\<bar>a / 100\<bar> < 8" using assms(1) by simp
  from half_ulp_8 [OF this] obtain d where d: "round64 (a / 100) = Fin d" "\<bar>d - a / 100\<bar> \<le> ?h"
    by blast
  have "\<bar>a - d\<bar> < 8" using assms(1) d(2) h by (simp add: abs_if split: if_splits)
  from half_ulp_8 [OF this] obtain t where t: "round64 (a - d) = Fin t" "\<bar>t - (a - d)\<bar> \<le> ?h"
    by blast
  have "\<bar>s / 100\<bar> < 8" using assms(2) by simp
  from half_ulp_8 [OF this] obtain e where e: "round64 (s / 100) = Fin e" "\<bar>e - s / 100\<bar> \<le> ?h"
    by blast
  have "\<bar>t + e\<bar> < 8" using assms d(2) t(2) e(2) h by (simp add: abs_if split: if_splits)
  from half_ulp_8 [OF this] obtain r where r: "round64 (t + e) = Fin r" "\<bar>r - (t + e)\<bar> \<le> ?h"
    by blast
  have "specUpdate (Fin a) (Fin s) = Fin r"
    by (simp add: specUpdate_def fsub_def d(1) t(1) e(1) r(1))
  moreover have "\<bar>r - (a - a / 100 + s / 100)\<bar> \<le> 4 * ?h"
    using d(2) t(2) e(2) r(2) by (simp add: abs_if split: if_splits)
  ultimately show ?thesis by blast
qed

lemma closedForm_step: "closedForm (Suc k) = closedForm k - closedForm k / 100 + 5 / 100"
  by (simp add: closedForm_def field_simps)

lemma closedForm_range: "0 \<le> closedForm k \<and> closedForm k \<le> 5"
proof -
  have "0 \<le> ((99::real) / 100) ^ k" by simp
  moreover have "((99::real) / 100) ^ k \<le> 1" by (rule power_le_one) simp_all
  ultimately show ?thesis by (simp add: closedForm_def)
qed

lemma constant_sample_error:
  "\<exists>r. foldl specUpdate (Fin 0) (replicate k (Fin 5)) = Fin r
       \<and> \<bar>r - closedForm k\<bar> \<le> 400 * 2 powi (- 51)"
proof (induction k)
  case 0
  show ?case using p2_pos [of "- 51"] by (simp add: closedForm_def)
next
  case (Suc k)
  let ?h = "(2::real) powi (- 51)"
  note h = p2_m51
  from Suc obtain a where a: "foldl specUpdate (Fin 0) (replicate k (Fin 5)) = Fin a"
    "\<bar>a - closedForm k\<bar> \<le> 400 * ?h" by blast
  have "\<bar>a\<bar> \<le> 6" using a(2) closedForm_range [of k] h by (simp add: abs_if split: if_splits)
  from specUpdate_error [OF this, of 5] obtain r where
    r: "specUpdate (Fin a) (Fin 5) = Fin r" "\<bar>r - (a - a / 100 + 5 / 100)\<bar> \<le> 4 * ?h"
    by auto
  have "foldl specUpdate (Fin 0) (replicate (Suc k) (Fin 5)) = Fin r"
    unfolding replicate_Suc [of k] replicate_append_same [symmetric] by (simp add: a(1) r(1))
  moreover have "\<bar>r - closedForm (Suc k)\<bar> \<le> 400 * ?h"
    unfolding closedForm_step using r(2) a(2) by (simp add: abs_if split: if_splits)
  ultimately show ?case by blast
qed

lemma closedForm_100: "3.1698 < closedForm 100" "closedForm 100 < 3.1699"
  by (simp_all add: closedForm_def power_divide)

lemma toFixed_3170:
  assumes "3.1695 \<le> r" and "r < 3.1705"
  shows "toFixed big (Fin r) 3 = ''3.170''"
proof -
  have "\<lfloor>r * 10 ^ 3 + 1 / 2\<rfloor> = 3170"
    using assms by (intro floor_unique) simp_all
  then have n: "nat \<lfloor>\<bar>r\<bar> * 10 ^ 3 + 1 / 2\<rfloor> = 3170" using assms by (simp add: abs_if)
  have "\<not> r < 0" "\<not> 10 ^ 21 \<le> \<bar>r\<bar>" using assms by simp_all
  then show ?thesis
    by (simp only: toFixed.simps Let_def n if_False) (simp add: str_eval)
qed

lemma foldl_approx: "foldl (\<lambda>avg s. approxRollingAverage avg s (Fin 100)) acc ss = foldl specUpdate acc ss"
  by (induction ss arbitrary: acc) (simp_all add: approxRollingAverage_100)

lemma constant_sample_token:
  "\<exists>r. foldl specUpdate (Fin 0) (replicate 100 (Fin 5)) = Fin r
       \<and> \<bar>r - closedForm 100\<bar> \<le> 400 * 2 powi (- 51)
       \<and> 3.1698 < r \<and> r < 3.1699
       \<and> toFixed big (Fin r) 3 = ''3.170''"
proof -
  from constant_sample_error [of 100] obtain r where
    r: "foldl specUpdate (Fin 0) (replicate 100 (Fin 5)) = Fin r"
       "\<bar>r - closedForm 100\<bar> \<le> 400 * 2 powi (- 51)" by blast
  have "400 * (2::real) powi (- 51) \<le> 1 / 10 ^ 12" by simp
  then have b: "closedForm 100 - 1 / 10 ^ 12 \<le> r" "r \<le> closedForm 100 + 1 / 10 ^ 12"
    using r(2) by (simp_all add: abs_if split: if_splits)
  have c: "3.16983 < closedForm 100" "closedForm 100 < 3.16984"
    by (simp_all add: closedForm_def power_divide)
  have "3.1698 < r" "r < 3.1699" using b c by simp_all
  moreover from this have "toFixed big (Fin r) 3 = ''3.170''"
    by (intro toFixed_3170) simp_all
  ultimately show ?thesis using r by blast
qed

lemma posted_before_100:
  "list_all verifyResult obs \<Longrightarrow> length obs < 100 \<Longrightarrow>
     posted (snd (mainLoop big initial (map Observed obs))) = []"
proof (induction obs rule: rev_induct)
  case Nil
  then show ?case by (simp add: initial_def)
next
  case (snoc ob obs)
  then have v: "list_all verifyResult obs" "verifyResult ob" and l: "Suc (length obs) < 100"
    by simp_all
  have "\<not> 100 dvd Suc (length obs)" using l by (auto dest: dvd_imp_le)
  then have "\<not> 100 dvd counterAfter (Suc (length obs))" by (simp add: counterAfter_dvd)
  then show ?case using mainLoop_status_line [OF v, of big] snoc.IH [OF v(1)] l by simp
qed

lemma statusMessage_report: "statusMessage big (report big st) = statusMessage big st"
  by (simp add: statusMessage_def report_def)

lemma statusMessage_updateAverages_eq:
  assumes "list_all verifyResult obs" and "verifyResult ob"
  shows "statusMessage big (updateAverages (snd (mainLoop big initial (map Observed obs))) ob)
       = statusMessage big (snd (mainLoop big initial (map Observed (obs @ [ob]))))"
  by (simp only: mainLoop_snoc [OF assms] statusMessage_report)

lemma constant_sample_message:
  "posted (snd (mainLoop big initial (map Observed (replicate 100 (uniformObservation (Fin 5) True)))))
     = [''totalSamples 0,000,000,100 generate 3.170ms hash 3.170ms sign 3.170ms verify 3.170ms'']"
proof -
  let ?u = "uniformObservation (Fin 5) True"
  let ?S = "snd (mainLoop big initial (map Observed (replicate 99 ?u @ [?u])))"
  have v: "list_all verifyResult (replicate 99 ?u)" "verifyResult ?u"
    by (simp_all add: list_all_iff uniformObservation_def)
  have v': "list_all verifyResult (replicate 99 ?u @ [?u])" using v by simp
  have r100: "replicate 100 ?u = replicate 99 ?u @ [?u]"
  proof -
    have "(100 :: nat) = Suc 99" by simp
    then show ?thesis by (simp only: replicate_Suc replicate_append_same)
  qed
  have m: "map generateDataTime (replicate 99 ?u @ [?u]) = replicate 100 (Fin 5)"
    "map hashDataTime (replicate 99 ?u @ [?u]) = replicate 100 (Fin 5)"
    "map signDataTime (replicate 99 ?u @ [?u]) = replicate 100 (Fin 5)"
    "map verifyTime (replicate 99 ?u @ [?u]) = replicate 100 (Fin 5)"
    unfolding r100 [symmetric] by (simp_all add: uniformObservation_def)
  from constant_sample_token [of big] obtain r where
    r: "foldl specUpdate (Fin 0) (replicate 100 (Fin 5)) = Fin r"
       "toFixed big (Fin r) 3 = ''3.170''" by blast
  have avgs: "generateDataAverage ?S = Fin r" "hashDataAverage ?S = Fin r"
    "signDataAverage ?S = Fin r" "verifyAverage ?S = Fin r"
    using mainLoop_averages [OF v', of big initial] unfolding m by (simp_all add: initial_def r(1))
  have c: "counterAfter (length (replicate 99 ?u @ [?u])) = 100" by (simp add: counterAfter_def)
  have tot: "totalSamples ?S = Fin 100"
    using mainLoop_totalSamples [OF v', of big] unfolding c by simp
  have msg: "statusMessage big ?S
      = ''totalSamples 0,000,000,100 generate 3.170ms hash 3.170ms sign 3.170ms verify 3.170ms''"
    unfolding statusMessage_tokens avgs tot r(2) by (simp add: str_eval)
  have d: "100 dvd counterAfter (Suc (length (replicate 99 ?u)))" by (simp add: counterAfter_def)
  have l: "length (replicate 99 ?u) < 100" by simp
  have p: "posted ?S = posted (snd (mainLoop big initial (map Observed (replicate 99 ?u))))
      @ [statusMessage big
           (updateAverages (snd (mainLoop big initial (map Observed (replicate 99 ?u)))) ?u)]"
    using mainLoop_status_line [OF v, of big] d by (simp only: if_True)
  have "posted ?S = [statusMessage big ?S]"
    unfolding p posted_before_100 [OF v(1) l] statusMessage_updateAverages_eq [OF v]
    by (simp only: append_Nil)
  then show ?thesis unfolding r100 msg .
qed

text \<open>
  Claim C3, amended. A constant sample of 5 fed to a stage average 100 times from 0 gives
  the closed form \<open>5 (1 - 0.99^100)\<close> up to the rounding of the doubles, within
  \<open>400 * 2^-51\<close>; that value lies between 3.1698 and 3.1699, the reporter writes it as
  \<^verbatim>\<open>3.170ms\<close>, and the message of iteration 100 is the one given.
\<close>

theorem constant_five_average:
  "\<exists>r. foldl (\<lambda>avg s. approxRollingAverage avg s (Fin 100)) (Fin 0) (replicate 100 (Fin 5)) = Fin r
       \<and> \<bar>r - 5 * (1 - (99 / 100) ^ 100)\<bar> \<le> 400 * 2 powi (- 51)
       \<and> 3.1698 < r \<and> r < 3.1699
       \<and> numberWithCommas (toFixed big (Fin r) 3) @ ''ms'' = ''3.170ms''
       \<and> posted (snd (mainLoop big initial
             (map Observed (replicate 100 (uniformObservation (Fin 5) True)))))
           = [''totalSamples 0,000,000,100 generate 3.170ms hash 3.170ms sign 3.170ms verify 3.170ms'']"
proof -
  from constant_sample_token [of big] obtain r where
    r: "foldl specUpdate (Fin 0) (replicate 100 (Fin 5)) = Fin r"
       "\<bar>r - closedForm 100\<bar> \<le> 400 * 2 powi (- 51)" "3.1698 < r" "r < 3.1699"
       "toFixed big (Fin r) 3 = ''3.170''" by blast
  have "numberWithCommas (toFixed big (Fin r) 3) @ ''ms'' = ''3.170ms''"
    unfolding r(5) by (simp add: str_eval)
  then show ?thesis
    using r(1-4) constant_sample_message [of big]
    unfolding foldl_approx closedForm_def by blast
qed

theorem constant_five_average_witness:
  "\<exists>r. foldl (\<lambda>avg s. approxRollingAverage avg s (Fin 100)) (Fin 0) (replicate 100 (Fin 5)) = Fin r
       \<and> 3.1698 < r \<and> r < 3.1699
       \<and> numberWithCommas (toFixed (\<lambda>a. []) (Fin r) 3) @ ''ms'' = ''3.170ms''"
  using constant_five_average [of "\<lambda>a. []"] by blast

text \<open>
  Claim C3, as stated, fails: the token written for that average is not \<^verbatim>\<open>3.205ms\<close>.
\<close>

theorem constant_five_counterexample:
  "numberWithCommas (toFixed (\<lambda>a. [])
       (foldl (\<lambda>avg s. approxRollingAverage avg s (Fin 100)) (Fin 0) (replicate 100 (Fin 5))) 3)
     @ ''ms'' \<noteq> ''3.205ms''"
proof -
  from constant_sample_token [of "\<lambda>a. []"] obtain r where
    r: "foldl specUpdate (Fin 0) (replicate 100 (Fin 5)) = Fin r"
       "toFixed (\<lambda>a. []) (Fin r) 3 = ''3.170''" by blast
  show ?thesis unfolding foldl_approx r by (simp add: str_eval)
qed

section \<open>Bounds of the rolling averages\<close>














end
